theory Spec2Isabelle
  imports Complex_Main
begin

section \<open>The animated heart curve of valentine.py\<close>

text \<open>
  The development embeds the class \<open>ValentineHeart\<close> of \<open>src/valentine.py\<close>: its
  mathematical core (\<open>_heart_curve\<close>, \<open>_ease_in_out\<close>), the per-frame callback
  \<open>_update\<close> and the event handlers \<open>_on_key_press\<close>, \<open>_on_click\<close>, \<open>_on_motion\<close>.

  Numbers. Python's \<open>int\<close> is \<open>int\<close>. The scalar arithmetic of \<open>_update\<close> and
  \<open>_ease_in_out\<close> is modelled over \<open>real\<close>. The arrays of \<open>_heart_curve\<close> hold values of
  the type \<open>npfloat\<close>: a finite number, an infinity or \<open>nan\<close>, with the special cases of
  IEEE 754 arithmetic and its overflow to infinity. Inside the finite range a result is
  the exact real number: rounding to the nearest double and the sign of zero are not
  modelled.
\<close>

subsection \<open>Class constants\<close>

definition K_FINAL :: int where
  "K_FINAL = 50"

definition NUM_POINTS :: nat where
  "NUM_POINTS = 3000"

definition BUILD_FRAMES :: int where
  "BUILD_FRAMES = 100"

definition PULSE_FRAMES :: int where
  "PULSE_FRAMES = 60"

definition INITIAL_FPS :: int where
  "INITIAL_FPS = 3"

definition SPLASH_FPS :: int where
  "SPLASH_FPS = 15"

subsection \<open>NumPy values\<close>

datatype npfloat = Num real | PInf | NInf | NaN

text \<open>
  A double operation whose exact value is \<open>r\<close> returns an infinity when \<open>r\<close> rounds to
  one: under round-to-nearest-even that is from \<open>2^1024 - 2^970\<close> on, half a unit in the
  last place above the largest double \<open>2^1024 - 2^971\<close>.
\<close>

definition OVERFLOW :: real where
  "OVERFLOW = 2 ^ 1024 - 2 ^ 970"

definition np_result :: "real \<Rightarrow> npfloat" where
  "np_result r = (if OVERFLOW \<le> r then PInf else if r \<le> - OVERFLOW then NInf else Num r)"

text \<open>Multiplication: \<open>nan\<close> propagates, and zero times an infinity is \<open>nan\<close>.\<close>

fun np_mul :: "npfloat \<Rightarrow> npfloat \<Rightarrow> npfloat" where
  "np_mul NaN _ = NaN"
| "np_mul _ NaN = NaN"
| "np_mul (Num a) (Num b) = np_result (a * b)"
| "np_mul (Num a) PInf = (if a = 0 then NaN else if 0 < a then PInf else NInf)"
| "np_mul (Num a) NInf = (if a = 0 then NaN else if 0 < a then NInf else PInf)"
| "np_mul PInf (Num b) = (if b = 0 then NaN else if 0 < b then PInf else NInf)"
| "np_mul NInf (Num b) = (if b = 0 then NaN else if 0 < b then NInf else PInf)"
| "np_mul PInf PInf = PInf"
| "np_mul PInf NInf = NInf"
| "np_mul NInf PInf = NInf"
| "np_mul NInf NInf = PInf"

text \<open>Addition and subtraction: \<open>nan\<close> propagates, and \<open>inf - inf\<close> is \<open>nan\<close>.\<close>

fun np_add :: "npfloat \<Rightarrow> npfloat \<Rightarrow> npfloat" where
  "np_add NaN _ = NaN"
| "np_add _ NaN = NaN"
| "np_add (Num a) (Num b) = np_result (a + b)"
| "np_add (Num a) PInf = PInf"
| "np_add (Num a) NInf = NInf"
| "np_add PInf (Num b) = PInf"
| "np_add NInf (Num b) = NInf"
| "np_add PInf PInf = PInf"
| "np_add PInf NInf = NaN"
| "np_add NInf PInf = NaN"
| "np_add NInf NInf = NInf"

fun np_neg :: "npfloat \<Rightarrow> npfloat" where
  "np_neg (Num a) = Num (- a)"
| "np_neg PInf = NInf"
| "np_neg NInf = PInf"
| "np_neg NaN = NaN"

definition np_sub :: "npfloat \<Rightarrow> npfloat \<Rightarrow> npfloat" where
  "np_sub a b = np_add a (np_neg b)"

text \<open>\<open>np.abs\<close>, and \<open>np.sin\<close>, which has no value at an infinity.\<close>

fun np_abs :: "npfloat \<Rightarrow> npfloat" where
  "np_abs (Num a) = Num \<bar>a\<bar>"
| "np_abs PInf = PInf"
| "np_abs NInf = PInf"
| "np_abs NaN = NaN"

fun np_sin :: "npfloat \<Rightarrow> npfloat" where
  "np_sin (Num a) = Num (sin a)"
| "np_sin _ = NaN"

text \<open>\<open>np.sqrt\<close>: the square root of a negative number is \<open>nan\<close>.\<close>

fun np_sqrt :: "npfloat \<Rightarrow> npfloat" where
  "np_sqrt (Num v) = (if v < 0 then NaN else Num (sqrt v))"
| "np_sqrt PInf = PInf"
| "np_sqrt NInf = NaN"
| "np_sqrt NaN = NaN"

text \<open>\<open>np.maximum\<close> propagates \<open>nan\<close>.\<close>

fun np_maximum :: "npfloat \<Rightarrow> npfloat \<Rightarrow> npfloat" where
  "np_maximum NaN _ = NaN"
| "np_maximum _ NaN = NaN"
| "np_maximum PInf _ = PInf"
| "np_maximum _ PInf = PInf"
| "np_maximum NInf b = b"
| "np_maximum a NInf = a"
| "np_maximum (Num a) (Num b) = Num (max a b)"

text \<open>
  \<open>b ** e\<close> on floats, for the positive non-integer exponent \<open>e\<close> the program uses:
  \<open>nan\<close> for a negative finite base, \<open>0 ** e = 0\<close>, and an infinite base gives \<open>inf\<close>.
  \<open>b ** 2\<close> is the product \<open>b * b\<close>.
\<close>

fun np_power :: "npfloat \<Rightarrow> real \<Rightarrow> npfloat" where
  "np_power (Num b) e = (if b < 0 then NaN else np_result (b powr e))"
| "np_power PInf e = PInf"
| "np_power NInf e = PInf"
| "np_power NaN e = NaN"

definition np_square :: "npfloat \<Rightarrow> npfloat" where
  "np_square b = np_mul b b"

text \<open>\<open>np.linspace(start, stop, num)\<close>: \<open>num\<close> evenly spaced samples, both ends included.\<close>

definition linspace :: "real \<Rightarrow> real \<Rightarrow> nat \<Rightarrow> real list" where
  "linspace start stop num =
     map (\<lambda>i. start + real i * ((stop - start) / real (num - 1))) [0..<num]"

subsection \<open>Mathematical core\<close>

text \<open>
  \<open>_heart_curve(self, k, amplitude)\<close>, with \<open>self.x\<close> as the first argument. The three
  intermediate arrays are the source's; array arithmetic is elementwise. The samples and
  the two parameters are finite numbers.
\<close>

definition heart_curve :: "real list \<Rightarrow> real \<Rightarrow> real \<Rightarrow> npfloat list" where
  "heart_curve xs k amplitude =
     (let base = map (\<lambda>v. np_power (np_abs (Num v)) (2 / 3)) xs;
          wave = map (\<lambda>v. np_mul (Num amplitude) (np_sin (np_mul (Num k) (Num v)))) xs;
          envelope =
            map (\<lambda>v. np_sqrt (np_maximum (Num 0) (np_sub (Num 3) (np_square (Num v))))) xs
      in map2 np_add base (map2 np_mul wave envelope))"

text \<open>\<open>np.clip(t, lo, hi)\<close> is \<open>minimum(hi, maximum(t, lo))\<close>.\<close>

definition np_clip :: "real \<Rightarrow> real \<Rightarrow> real \<Rightarrow> real" where
  "np_clip t lo hi = min hi (max t lo)"

definition ease_in_out :: "real \<Rightarrow> real" where
  "ease_in_out t0 = (let t = np_clip t0 0 1 in t * t * (3 - 2 * t))"

subsection \<open>The animation object\<close>

text \<open>
  What the figure shows is part of the state. The message label has one of three texts:
  the empty string, the completion line (\<open>Made with ... and Mathematics\<close>) or the pause
  line (\<open>Paused - press SPACE to continue\<close>). The colours of the start button are the
  keys \<open>btn_face\<close> and \<open>btn_hover\<close> of \<open>COLORS\<close>.
\<close>

datatype message = MsgEmpty | MsgCompleted | MsgPaused

datatype btn_color = BtnFace | BtnHover

datatype splash_element = SplashSub | BtnGlow | BtnPatch | BtnLabel | SplashHint

datatype py_error = ZeroDivisionError

text \<open>A line of the plot: the data given to \<open>set_data\<close> and the opacity given to \<open>set_alpha\<close>.\<close>

record line2d =
  ldata :: "real list \<times> npfloat list"
  lalpha :: real

text \<open>
  The fields of \<open>ValentineHeart\<close> (without the leading underscore), then the figure.
  \<open>k_display\<close> is the number that the readout \<open>k = ...\<close> formats with two decimals.
  \<open>anim_interval\<close> is the interval in milliseconds of \<open>self._anim.event_source\<close>, and
  \<open>None\<close> while there is no such timer. \<open>draw_requests\<close> counts the calls of
  \<open>draw_idle\<close>, and \<open>closed\<close> records \<open>plt.close('all')\<close>.
\<close>

record heart =
  self_x :: "real list"
  frame :: int
  paused :: bool
  fps :: int
  completed :: bool
  started :: bool
  splash_tick :: int
  hovering_btn :: bool
  glow_outer :: line2d
  glow_inner :: line2d
  core_line :: line2d
  k_display :: real
  message_text :: message
  message_alpha :: real
  splash_elements :: "splash_element list"
  btn_glow_alpha :: real
  btn_facecolor :: btn_color
  btn_alpha :: real
  btn_linewidth :: real
  anim_interval :: "int option"
  draw_requests :: nat
  closed :: bool

text \<open>The object after \<open>__init__\<close> and \<open>run\<close>, when the event loop starts.\<close>

definition init :: heart where
  "init =
     \<lparr> self_x = linspace (- sqrt 3) (sqrt 3) NUM_POINTS,
       frame = 0,
       paused = False,
       fps = INITIAL_FPS,
       completed = False,
       started = False,
       splash_tick = 0,
       hovering_btn = False,
       glow_outer = \<lparr> ldata = ([], []), lalpha = 0.1 \<rparr>,
       glow_inner = \<lparr> ldata = ([], []), lalpha = 0.25 \<rparr>,
       core_line = \<lparr> ldata = ([], []), lalpha = 0.95 \<rparr>,
       k_display = 0,
       message_text = MsgEmpty,
       message_alpha = 0,
       splash_elements = [SplashSub, BtnGlow, BtnPatch, BtnLabel, SplashHint],
       btn_glow_alpha = 0.12,
       btn_facecolor = BtnFace,
       btn_alpha = 0.95,
       btn_linewidth = 2,
       anim_interval = Some (1000 div SPLASH_FPS),
       draw_requests = 0,
       closed = False \<rparr>"

text \<open>
  The statement both \<open>_start_animation\<close> and the speed keys end with:
  \<open>if hasattr(self, '_anim') and self._anim.event_source:
       self._anim.event_source.interval = 1000 // self._fps\<close>.
\<close>

definition set_interval :: "heart \<Rightarrow> py_error + heart" where
  "set_interval s =
     (case anim_interval s of
        None \<Rightarrow> Inr s
      | Some _ \<Rightarrow>
          if fps s = 0 then Inl ZeroDivisionError
          else Inr (s\<lparr>anim_interval := Some (1000 div fps s)\<rparr>))"

definition remove_start_screen :: "heart \<Rightarrow> heart" where
  "remove_start_screen s = s\<lparr>splash_elements := []\<rparr>"

definition start_animation :: "heart \<Rightarrow> py_error + heart" where
  "start_animation s =
     (case set_interval (remove_start_screen (s\<lparr>started := True\<rparr>)) of
        Inl e \<Rightarrow> Inl e
      | Inr s1 \<Rightarrow> Inr (s1\<lparr>draw_requests := draw_requests s1 + 1\<rparr>))"

subsection \<open>The animation engine\<close>

text \<open>
  The two branches of \<open>_update\<close> on the frame counter give \<open>(k, amplitude, alpha_factor)\<close>.
\<close>

definition build_params :: "int \<Rightarrow> real \<times> real \<times> real" where
  "build_params frm =
     (let t = real_of_int frm / real_of_int (max 1 (BUILD_FRAMES - 1));
          k = real_of_int K_FINAL * ease_in_out t;
          amplitude = 0.9;
          alpha_factor = 0.4 + 0.6 * t
      in (k, amplitude, alpha_factor))"

definition pulse_params :: "int \<Rightarrow> real \<times> real \<times> real" where
  "pulse_params frm =
     (let pulse_idx = frm - BUILD_FRAMES;
          k = real_of_int K_FINAL;
          breath = sin (2 * pi * real_of_int pulse_idx / 20);
          amplitude = 0.9 + 0.035 * breath;
          alpha_factor = 1
      in (k, amplitude, alpha_factor))"

text \<open>The second half of \<open>_update\<close>: draw the curve, advance the counter, wrap it.\<close>

definition draw_frame :: "heart \<Rightarrow> real \<times> real \<times> real \<Rightarrow> heart" where
  "draw_frame s p =
     (case p of (k, amplitude, alpha_factor) \<Rightarrow>
        let y = heart_curve (self_x s) k amplitude;
            s1 = s\<lparr> glow_outer := \<lparr> ldata = (self_x s, y), lalpha = 0.10 * alpha_factor \<rparr>,
                     glow_inner := \<lparr> ldata = (self_x s, y), lalpha = 0.25 * alpha_factor \<rparr>,
                     core_line := \<lparr> ldata = (self_x s, y), lalpha = 0.95 * alpha_factor \<rparr>,
                     k_display := k \<rparr>;
            s2 = s1\<lparr>frame := frame s1 + 1\<rparr>;
            s3 = (if frame s2 \<ge> BUILD_FRAMES + PULSE_FRAMES
                  then s2\<lparr>frame := BUILD_FRAMES\<rparr> else s2)
        in s3\<lparr>draw_requests := draw_requests s3 + 1\<rparr>)"

definition update :: "heart \<Rightarrow> heart" where
  "update s =
     (if \<not> started s then
        (let tick = splash_tick s + 1;
             pulse = 0.08 + 0.14 * sin (2 * pi * real_of_int tick / 30)
         in s\<lparr> splash_tick := tick,
               btn_glow_alpha := max 0 pulse,
               draw_requests := draw_requests s + 1 \<rparr>)
      else if paused s then s
      else if frame s < BUILD_FRAMES then
        draw_frame (s\<lparr>completed := False\<rparr>) (build_params (frame s))
      else
        draw_frame
          (if \<not> completed s
           then s\<lparr> completed := True, message_text := MsgCompleted, message_alpha := 0.7 \<rparr>
           else s)
          (pulse_params (frame s)))"

subsection \<open>Interactivity\<close>

text \<open>
  A mouse event carries pixel coordinates, each of which may be \<open>None\<close>. The map from
  pixels to figure coordinates, \<open>self.fig.transFigure.inverted().transform\<close>, belongs to
  the plotting library and is the parameter \<open>tr\<close>.
\<close>

record mouse_event =
  ev_x :: "real option"
  ev_y :: "real option"

definition is_over_button :: "(real \<times> real \<Rightarrow> real \<times> real) \<Rightarrow> mouse_event \<Rightarrow> bool" where
  "is_over_button tr event =
     (case (ev_x event, ev_y event) of
        (Some px, Some py) \<Rightarrow>
          (case tr (px, py) of (fx, fy) \<Rightarrow>
             (0.5 - 0.13) \<le> fx \<and> fx \<le> (0.5 + 0.13) \<and>
             (0.46 - 0.045) \<le> fy \<and> fy \<le> (0.46 + 0.045))
      | _ \<Rightarrow> False)"

definition on_click ::
  "(real \<times> real \<Rightarrow> real \<times> real) \<Rightarrow> heart \<Rightarrow> mouse_event \<Rightarrow> py_error + heart" where
  "on_click tr s event =
     (if \<not> started s then
        (if is_over_button tr event then start_animation s else Inr s)
      else Inr s)"

definition on_motion ::
  "(real \<times> real \<Rightarrow> real \<times> real) \<Rightarrow> heart \<Rightarrow> mouse_event \<Rightarrow> heart" where
  "on_motion tr s event =
     (if \<not> started s then
        (let over = is_over_button tr event in
         if over \<and> \<not> hovering_btn s then
           s\<lparr> hovering_btn := True, btn_facecolor := BtnHover, btn_alpha := 1.0,
               btn_linewidth := 2.5, draw_requests := draw_requests s + 1 \<rparr>
         else if \<not> over \<and> hovering_btn s then
           s\<lparr> hovering_btn := False, btn_facecolor := BtnFace, btn_alpha := 0.95,
               btn_linewidth := 2.0, draw_requests := draw_requests s + 1 \<rparr>
         else s)
      else s)"

text \<open>\<open>_on_key_press\<close>, on the string \<open>event.key\<close>.\<close>

definition on_key_press :: "heart \<Rightarrow> string \<Rightarrow> py_error + heart" where
  "on_key_press s key =
     (if \<not> started s then
        (if key \<in> set ['' '', ''enter''] then start_animation s
         else if key \<in> set [''q'', ''escape''] then Inr (s\<lparr>closed := True\<rparr>)
         else Inr s)
      else if key = '' '' then
        (let s1 = s\<lparr>paused := \<not> paused s\<rparr>;
             s2 = (if paused s1 then
                     s1\<lparr> message_text := MsgPaused, message_alpha := 0.6 \<rparr>
                   else if completed s1 then
                     s1\<lparr> message_text := MsgCompleted, message_alpha := 0.7 \<rparr>
                   else
                     s1\<lparr> message_text := MsgEmpty, message_alpha := 0 \<rparr>)
         in Inr (s2\<lparr>draw_requests := draw_requests s2 + 1\<rparr>))
      else if key = ''r'' then
        Inr (s\<lparr> frame := 0,
                completed := False,
                paused := False,
                message_text := MsgEmpty,
                message_alpha := 0,
                glow_outer := (glow_outer s)\<lparr>ldata := ([], [])\<rparr>,
                glow_inner := (glow_inner s)\<lparr>ldata := ([], [])\<rparr>,
                core_line := (core_line s)\<lparr>ldata := ([], [])\<rparr>,
                k_display := 0,
                draw_requests := draw_requests s + 1 \<rparr>)
      else if key \<in> set [''q'', ''escape''] then Inr (s\<lparr>closed := True\<rparr>)
      else if key = ''up'' then set_interval (s\<lparr>fps := min 30 (fps s + 1)\<rparr>)
      else if key = ''down'' then set_interval (s\<lparr>fps := max 1 (fps s - 1)\<rparr>)
      else Inr s)"

subsection \<open>Runs of the program\<close>

text \<open>
  The states the event loop can reach from \<open>init\<close>: by a timer tick, a key press, a
  mouse click or a mouse motion, in any order. A handler that raises reaches no state.
\<close>

inductive reachable :: "heart \<Rightarrow> bool" where
  reach_init: "reachable init"
| reach_tick: "reachable s \<Longrightarrow> reachable (update s)"
| reach_key: "reachable s \<Longrightarrow> on_key_press s key = Inr s' \<Longrightarrow> reachable s'"
| reach_click: "reachable s \<Longrightarrow> on_click tr s event = Inr s' \<Longrightarrow> reachable s'"
| reach_motion: "reachable s \<Longrightarrow> reachable (on_motion tr s event)"

text \<open>The phase that \<open>_update\<close> is in, read off its branches.\<close>

datatype phase = Splash | Building | Pulsing

definition phase_of :: "heart \<Rightarrow> phase" where
  "phase_of s =
     (if \<not> started s then Splash
      else if frame s < BUILD_FRAMES then Building
      else Pulsing)"

subsection \<open>Derived notions used by the properties\<close>

text \<open>
  The invariant of the event loop: the frame counter and the speed stay in their ranges,
  the timer exists, and before the start nothing of the animation has moved.
\<close>

definition sane :: "heart \<Rightarrow> bool" where
  "sane s \<longleftrightarrow> 0 \<le> frame s \<and> frame s < BUILD_FRAMES + PULSE_FRAMES
     \<and> 1 \<le> fps s \<and> fps s \<le> 30 \<and> anim_interval s \<noteq> None
     \<and> (\<not> started s \<longrightarrow> frame s = 0 \<and> \<not> paused s \<and> \<not> completed s)"

text \<open>
  The tick taken in \<open>s\<close> runs the statements under \<open>if not self._completed\<close> of the
  pulsing branch: it latches the flag and reveals the completion message.
\<close>

definition reveals_message :: "heart \<Rightarrow> bool" where
  "reveals_message s \<longleftrightarrow>
     started s \<and> \<not> paused s \<and> \<not> frame s < BUILD_FRAMES \<and> \<not> completed s"

text \<open>The same key pressed \<open>n\<close> times in a row; a handler that raises ends the run.\<close>

fun press_n :: "nat \<Rightarrow> string \<Rightarrow> heart \<Rightarrow> py_error + heart" where
  "press_n 0 key s = Inr s"
| "press_n (Suc n) key s =
     (case on_key_press s key of Inl e \<Rightarrow> Inl e | Inr s' \<Rightarrow> press_n n key s')"

text \<open>
  Example states and an example instance of \<open>tr\<close>. \<open>running\<close> is the object right after
  the start command in \<open>init\<close>. \<open>fig_transform\<close> maps pixels to figure coordinates on a
  canvas of 1000 by 900 pixels (the figure of 10 by 9 inches at 100 dots per inch), and
  \<open>hovered\<close> is \<open>init\<close> after the pointer has moved onto the middle of the button.
\<close>

definition running :: heart where
  "running = init\<lparr> started := True, splash_elements := [],
                    anim_interval := Some (1000 div INITIAL_FPS), draw_requests := 1 \<rparr>"

definition fig_transform :: "real \<times> real \<Rightarrow> real \<times> real" where
  "fig_transform p = (fst p / 1000, snd p / 900)"

definition hovered :: heart where
  "hovered = on_motion fig_transform init \<lparr> ev_x = Some 500, ev_y = Some 414 \<rparr>"

section \<open>Properties\<close>

subsection \<open>The curve evaluator\<close>



lemma np_mul_NaN: "np_mul a NaN = NaN"
  by (cases a) simp_all












subsection \<open>The easing function\<close>

lemma np_clip_unit: "0 \<le> t \<Longrightarrow> t \<le> 1 \<Longrightarrow> np_clip t 0 1 = t"
  by (simp add: np_clip_def)

lemma smoothstep_mono:
  fixes a b :: real
  assumes "0 \<le> a" "a \<le> b" "b \<le> 1"
  shows "a * a * (3 - 2 * a) \<le> b * b * (3 - 2 * b)"
proof -
  have d: "b * b * (3 - 2 * b) - a * a * (3 - 2 * a)
             = (b - a) * (3 * (a + b) - 2 * (a * a + a * b + b * b))"
    by (simp add: algebra_simps)
  have "a * a \<le> a * 1" using assms by (intro mult_left_mono) auto
  moreover have "b * b \<le> b * 1" using assms by (intro mult_left_mono) auto
  moreover have "a * b \<le> a * 1" using assms by (intro mult_left_mono) auto
  moreover have "a * b \<le> 1 * b" using assms by (intro mult_right_mono) auto
  ultimately have "0 \<le> 3 * (a + b) - 2 * (a * a + a * b + b * b)" by simp
  moreover have "0 \<le> b - a" using assms by simp
  ultimately have "0 \<le> (b - a) * (3 * (a + b) - 2 * (a * a + a * b + b * b))"
    by (rule mult_nonneg_nonneg[rotated])
  with d show ?thesis by linarith
qed

text \<open>
  C9. \<open>_ease_in_out\<close> clamps its argument to \<open>[0, 1]\<close> and returns \<open>3 t^2 - 2 t^3\<close> of the
  clamped value; so it maps 0 to 0, 1 to 1 and 1/2 to 1/2, is monotonic non-decreasing
  on \<open>[0, 1]\<close>, and satisfies \<open>ease t = 1 - ease (1 - t)\<close> there.
\<close>

theorem ease_in_out_smoothstep:
  "ease_in_out t = 3 * (np_clip t 0 1) ^ 2 - 2 * (np_clip t 0 1) ^ 3
   \<and> np_clip t 0 1 = (if t < 0 then 0 else if 1 < t then 1 else t)
   \<and> ease_in_out 0 = 0 \<and> ease_in_out 1 = 1 \<and> ease_in_out (1 / 2) = 1 / 2
   \<and> (0 \<le> a \<and> a \<le> b \<and> b \<le> 1 \<longrightarrow> ease_in_out a \<le> ease_in_out b)
   \<and> (0 \<le> t \<and> t \<le> 1 \<longrightarrow> ease_in_out t = 1 - ease_in_out (1 - t))"
proof (intro conjI impI)
  show "ease_in_out t = 3 * (np_clip t 0 1) ^ 2 - 2 * (np_clip t 0 1) ^ 3"
    by (simp add: ease_in_out_def Let_def power2_eq_square power3_eq_cube algebra_simps)
  show "np_clip t 0 1 = (if t < 0 then 0 else if 1 < t then 1 else t)"
    by (simp add: np_clip_def)
  show "ease_in_out 0 = 0" by (simp add: ease_in_out_def np_clip_def)
  show "ease_in_out 1 = 1" by (simp add: ease_in_out_def np_clip_def)
  show "ease_in_out (1 / 2) = 1 / 2" by (simp add: ease_in_out_def np_clip_def)
next
  assume "0 \<le> a \<and> a \<le> b \<and> b \<le> 1"
  then show "ease_in_out a \<le> ease_in_out b"
    using smoothstep_mono [of a b] by (simp add: ease_in_out_def np_clip_unit)
next
  assume "0 \<le> t \<and> t \<le> 1"
  then show "ease_in_out t = 1 - ease_in_out (1 - t)"
    by (simp add: ease_in_out_def np_clip_unit algebra_simps)
qed

theorem ease_in_out_smoothstep_witness:
  "(0::real) \<le> 1 / 4 \<and> (1 / 4 :: real) \<le> 3 / 4 \<and> (3 / 4 :: real) \<le> 1
   \<and> ease_in_out (1 / 4) \<le> ease_in_out (3 / 4)
   \<and> ease_in_out (1 / 4) = 1 - ease_in_out (1 - 1 / 4)
   \<and> ease_in_out (1 / 4) = 5 / 32"
  using ease_in_out_smoothstep [of "1 / 4" "1 / 4" "3 / 4"]
  by (simp add: np_clip_def power2_eq_square power3_eq_cube)

subsection \<open>Fields that a tick keeps or advances\<close>

lemma draw_frame_frame:
  "frame (draw_frame s p) =
     (if frame s + 1 \<ge> BUILD_FRAMES + PULSE_FRAMES then BUILD_FRAMES else frame s + 1)"
  by (cases p) (simp add: draw_frame_def Let_def)

lemma draw_frame_fields:
  "started (draw_frame s p) = started s"
  "paused (draw_frame s p) = paused s"
  "completed (draw_frame s p) = completed s"
  "fps (draw_frame s p) = fps s"
  "self_x (draw_frame s p) = self_x s"
  "anim_interval (draw_frame s p) = anim_interval s"
  "message_text (draw_frame s p) = message_text s"
  "message_alpha (draw_frame s p) = message_alpha s"
  by (cases p; simp add: draw_frame_def Let_def)+

lemma update_paused: "started s \<Longrightarrow> paused s \<Longrightarrow> update s = s"
  by (simp add: update_def)

lemma update_frame:
  "started s \<Longrightarrow> \<not> paused s \<Longrightarrow>
   frame (update s) =
     (if frame s + 1 \<ge> BUILD_FRAMES + PULSE_FRAMES then BUILD_FRAMES else frame s + 1)"
  by (simp add: update_def draw_frame_frame)

lemma update_frame_splash: "\<not> started s \<Longrightarrow> frame (update s) = frame s"
  by (simp add: update_def Let_def)

lemma update_keeps:
  "started (update s) = started s"
  "paused (update s) = paused s"
  "fps (update s) = fps s"
  "anim_interval (update s) = anim_interval s"
  "self_x (update s) = self_x s"
  by (simp_all add: update_def Let_def draw_frame_fields)

lemma update_completed:
  "started s \<Longrightarrow> \<not> paused s \<Longrightarrow> completed (update s) = (\<not> frame s < BUILD_FRAMES)"
  by (simp add: update_def draw_frame_fields)

subsection \<open>The invariant of the event loop\<close>

lemma set_interval_fields:
  assumes "set_interval s = Inr s'"
  shows "frame s' = frame s" "fps s' = fps s" "started s' = started s"
    "paused s' = paused s" "completed s' = completed s"
    "(anim_interval s' = None) = (anim_interval s = None)"
  using assms by (auto simp: set_interval_def split: option.splits if_splits)

lemma start_animation_fields:
  assumes "start_animation s = Inr s'"
  shows "frame s' = frame s" "fps s' = fps s" "started s'"
    "paused s' = paused s" "completed s' = completed s"
    "(anim_interval s' = None) = (anim_interval s = None)"
  using assms
  by (auto simp: start_animation_def remove_start_screen_def
      split: sum.splits dest: set_interval_fields)

lemma on_motion_fields:
  "frame (on_motion tr s e) = frame s" "fps (on_motion tr s e) = fps s"
  "started (on_motion tr s e) = started s" "paused (on_motion tr s e) = paused s"
  "completed (on_motion tr s e) = completed s"
  "anim_interval (on_motion tr s e) = anim_interval s"
  by (simp_all add: on_motion_def Let_def)

lemma on_click_fields:
  assumes "on_click tr s e = Inr s'"
  shows "frame s' = frame s" "fps s' = fps s" "started s \<longrightarrow> started s'"
    "paused s' = paused s" "completed s' = completed s"
    "(anim_interval s' = None) = (anim_interval s = None)"
  using assms
  by (auto simp: on_click_def split: if_splits dest: start_animation_fields)

lemma sane_init: "sane init"
  by (simp add: sane_def init_def BUILD_FRAMES_def PULSE_FRAMES_def INITIAL_FPS_def)

lemma update_splash_fields:
  "\<not> started s \<Longrightarrow> paused (update s) = paused s \<and> completed (update s) = completed s"
  by (simp add: update_def Let_def)

lemma sane_update: "sane s \<Longrightarrow> sane (update s)"
proof -
  assume a: "sane s"
  consider "\<not> started s" | "started s" "paused s" | "started s" "\<not> paused s" by blast
  then show ?thesis
  proof cases
    case 1
    with a show ?thesis
      by (simp add: sane_def update_keeps update_frame_splash update_splash_fields)
  next
    case 2
    with a show ?thesis by (simp add: update_paused)
  next
    case 3
    with a show ?thesis
      by (simp add: sane_def update_keeps update_frame BUILD_FRAMES_def PULSE_FRAMES_def)
  qed
qed

lemma on_key_press_splash:
  "\<not> started s \<Longrightarrow> on_key_press s key =
     (if key = '' '' \<or> key = ''enter'' then start_animation s
      else if key = ''q'' \<or> key = ''escape'' then Inr (s\<lparr>closed := True\<rparr>)
      else Inr s)"
  by (simp add: on_key_press_def)

lemma on_key_press_space:
  "started s \<Longrightarrow> on_key_press s '' '' =
     Inr (if paused s then
            (if completed s
             then s\<lparr> paused := False, message_text := MsgCompleted, message_alpha := 0.7,
                     draw_requests := draw_requests s + 1 \<rparr>
             else s\<lparr> paused := False, message_text := MsgEmpty, message_alpha := 0,
                     draw_requests := draw_requests s + 1 \<rparr>)
          else s\<lparr> paused := True, message_text := MsgPaused, message_alpha := 0.6,
                  draw_requests := draw_requests s + 1 \<rparr>)"
  by (simp add: on_key_press_def Let_def)

lemma on_key_press_r:
  "started s \<Longrightarrow> on_key_press s ''r'' =
     Inr (s\<lparr> frame := 0, completed := False, paused := False,
             message_text := MsgEmpty, message_alpha := 0,
             glow_outer := (glow_outer s)\<lparr>ldata := ([], [])\<rparr>,
             glow_inner := (glow_inner s)\<lparr>ldata := ([], [])\<rparr>,
             core_line := (core_line s)\<lparr>ldata := ([], [])\<rparr>,
             k_display := 0,
             draw_requests := draw_requests s + 1 \<rparr>)"
  by (simp add: on_key_press_def)

lemma on_key_press_up:
  "started s \<Longrightarrow> on_key_press s ''up'' = set_interval (s\<lparr>fps := min 30 (fps s + 1)\<rparr>)"
  by (simp add: on_key_press_def)

lemma on_key_press_down:
  "started s \<Longrightarrow> on_key_press s ''down'' = set_interval (s\<lparr>fps := max 1 (fps s - 1)\<rparr>)"
  by (simp add: on_key_press_def)

lemma on_key_press_quit:
  "started s \<Longrightarrow> key = ''q'' \<or> key = ''escape'' \<Longrightarrow>
   on_key_press s key = Inr (s\<lparr>closed := True\<rparr>)"
  by (auto simp add: on_key_press_def)

lemma on_key_press_other:
  "started s \<Longrightarrow> key \<notin> set ['' '', ''r'', ''q'', ''escape'', ''up'', ''down''] \<Longrightarrow>
   on_key_press s key = Inr s"
  by (simp add: on_key_press_def)

lemma sane_key: 
  assumes a: "sane s" and k: "on_key_press s key = Inr s'" 
  shows "sane s'"
proof (cases "started s")
  case False
  with k have "start_animation s = Inr s' \<or> s' = s\<lparr>closed := True\<rparr> \<or> s' = s"
    by (auto simp add: on_key_press_splash split: if_splits)
  then show ?thesis
  proof (elim disjE)
    assume st: "start_animation s = Inr s'"
    show ?thesis using a start_animation_fields [OF st] by (simp add: sane_def)
  next
    assume "s' = s\<lparr>closed := True\<rparr>" with a show ?thesis by (simp add: sane_def)
  next
    assume "s' = s" with a show ?thesis by simp
  qed
next
  case True
  consider "key = '' ''" | "key = ''r''" | "key = ''q'' \<or> key = ''escape''" 
    | "key = ''up''" | "key = ''down''"
    | "key \<notin> set ['' '', ''r'', ''q'', ''escape'', ''up'', ''down'']"
    by auto
  then show ?thesis
  proof cases
    case 1
    with k True a show ?thesis 
      by (auto simp add: on_key_press_space sane_def split: if_splits)
  next
    case 2
    with k True a show ?thesis 
      by (auto simp add: on_key_press_r sane_def BUILD_FRAMES_def PULSE_FRAMES_def)
  next
    case 3
    with k True a show ?thesis by (auto simp add: on_key_press_quit sane_def)
  next
    case 4
    with k True have "set_interval (s\<lparr>fps := min 30 (fps s + 1)\<rparr>) = Inr s'"
      by (simp add: on_key_press_up)
    from set_interval_fields [OF this] a True show ?thesis by (simp add: sane_def)
  next
    case 5
    with k True have "set_interval (s\<lparr>fps := max 1 (fps s - 1)\<rparr>) = Inr s'"
      by (simp add: on_key_press_down)
    from set_interval_fields [OF this] a True show ?thesis by (simp add: sane_def)
  next
    case 6
    with k True a show ?thesis by (simp add: on_key_press_other)
  qed
qed

lemma sane_click: "sane s \<Longrightarrow> on_click tr s e = Inr s' \<Longrightarrow> sane s'"
  by (auto simp add: sane_def dest: on_click_fields)

lemma sane_motion: "sane s \<Longrightarrow> sane (on_motion tr s e)"
  by (simp add: sane_def on_motion_fields)

lemma reachable_sane: "reachable s \<Longrightarrow> sane s"
  by (induction rule: reachable.induct)
    (auto intro: sane_init sane_update sane_key sane_click sane_motion)

subsection \<open>The frame counter\<close>

lemma start_from_init: "on_key_press init '' '' = Inr running"
  by (simp add: on_key_press_def start_animation_def remove_start_screen_def
      set_interval_def init_def running_def INITIAL_FPS_def)

lemma reachable_running: "reachable running"
  using reach_key [OF reach_init start_from_init] .

lemma running_fields:
  "started running" "\<not> paused running" "frame running = 0" "\<not> completed running"
  "fps running = 3" "anim_interval running = Some 333"
  by (simp_all add: running_def init_def INITIAL_FPS_def)

lemma reachable_ticks: "reachable s \<Longrightarrow> reachable ((update ^^ n) s)"
  by (induction n) (auto intro: reach_tick)

lemma ticks_keep:
  "started ((update ^^ n) s) = started s" "paused ((update ^^ n) s) = paused s"
  "fps ((update ^^ n) s) = fps s" "self_x ((update ^^ n) s) = self_x s"
  by (induction n) (simp_all add: update_keeps)

lemma ticks_paused: "started s \<Longrightarrow> paused s \<Longrightarrow> (update ^^ n) s = s"
  by (induction n) (simp_all add: update_paused)

lemma ticks_frame_linear:
  "started s \<Longrightarrow> \<not> paused s \<Longrightarrow> frame s + int n < BUILD_FRAMES + PULSE_FRAMES \<Longrightarrow>
   frame ((update ^^ n) s) = frame s + int n"
  by (induction n) (simp_all add: update_frame ticks_keep)

lemma update_pulsing_frame:
  "started s \<Longrightarrow> BUILD_FRAMES \<le> frame s \<Longrightarrow> BUILD_FRAMES \<le> frame (update s)"
  by (cases "paused s")
     (simp_all add: update_paused update_frame BUILD_FRAMES_def PULSE_FRAMES_def)

lemma ticks_pulsing_frame:
  "started s \<Longrightarrow> BUILD_FRAMES \<le> frame s \<Longrightarrow> BUILD_FRAMES \<le> frame ((update ^^ n) s)"
  by (induction n) (simp_all add: update_pulsing_frame ticks_keep)

lemma on_key_press_frame:
  assumes "on_key_press s key = Inr s'" "key \<noteq> ''r''"
  shows "frame s' = frame s"
proof (cases "started s")
  case False
  with assms show ?thesis
    by (auto simp add: on_key_press_splash split: if_splits dest: start_animation_fields)
next
  case True
  with assms show ?thesis
    by (auto simp add: on_key_press_def Let_def split: if_splits dest: set_interval_fields)
qed

text \<open>
  C1. In every reachable state that has started, the frame counter is in \<open>[0, 160)\<close>
  after a tick; a tick that would advance it to 160 sets it to \<open>BUILD_FRAMES = 100\<close>; and
  once the counter is at least 100, no number of ticks brings it below 100. A key other
  than \<open>r\<close> leaves the counter as it is.
\<close>

theorem frame_index_invariant:
  assumes "reachable s" and "started s"
  shows "0 \<le> frame (update s) \<and> frame (update s) < BUILD_FRAMES + PULSE_FRAMES
    \<and> BUILD_FRAMES = 100 \<and> BUILD_FRAMES + PULSE_FRAMES = 160
    \<and> (\<not> paused s \<and> frame s + 1 = BUILD_FRAMES + PULSE_FRAMES
         \<longrightarrow> frame (update s) = BUILD_FRAMES)
    \<and> (BUILD_FRAMES \<le> frame s \<longrightarrow> (\<forall>n. BUILD_FRAMES \<le> frame ((update ^^ n) s)))
    \<and> (\<forall>key s'. on_key_press s key = Inr s' \<and> key \<noteq> ''r'' \<longrightarrow> frame s' = frame s)"
proof -
  have "sane (update s)" using assms(1) by (intro reachable_sane reach_tick)
  then have "0 \<le> frame (update s) \<and> frame (update s) < BUILD_FRAMES + PULSE_FRAMES"
    by (simp add: sane_def)
  moreover have "\<not> paused s \<and> frame s + 1 = BUILD_FRAMES + PULSE_FRAMES
         \<longrightarrow> frame (update s) = BUILD_FRAMES"
    using assms(2) by (simp add: update_frame)
  moreover have "BUILD_FRAMES \<le> frame s \<longrightarrow> (\<forall>n. BUILD_FRAMES \<le> frame ((update ^^ n) s))"
    using assms(2) by (simp add: ticks_pulsing_frame)
  moreover have "\<forall>key s'. on_key_press s key = Inr s' \<and> key \<noteq> ''r'' \<longrightarrow> frame s' = frame s"
    using on_key_press_frame by blast
  ultimately show ?thesis by (simp add: BUILD_FRAMES_def PULSE_FRAMES_def)
qed

theorem frame_index_invariant_witness:
  "reachable ((update ^^ 159) running) \<and> started ((update ^^ 159) running)
   \<and> \<not> paused ((update ^^ 159) running)
   \<and> frame ((update ^^ 159) running) = 159
   \<and> frame (update ((update ^^ 159) running)) = 100
   \<and> 100 \<le> frame ((update ^^ 7) ((update ^^ 159) running))"
proof -
  let ?s = "(update ^^ 159) running"
  have r: "reachable ?s" by (rule reachable_ticks [OF reachable_running])
  have st: "started ?s" "\<not> paused ?s" by (simp_all add: ticks_keep running_fields)
  have f: "frame ?s = 159"
    using ticks_frame_linear [of running 159]
    by (simp add: running_fields BUILD_FRAMES_def PULSE_FRAMES_def)
  from frame_index_invariant [OF r st(1)] st f
  have "frame (update ?s) = 100 \<and> (\<forall>n. 100 \<le> frame ((update ^^ n) ?s))"
    by (simp add: BUILD_FRAMES_def PULSE_FRAMES_def)
  with r st f show ?thesis by blast
qed

subsection \<open>Building ticks\<close>

lemma build_params_eq:
  "build_params frm =
     (real_of_int K_FINAL * ease_in_out (real_of_int frm / real_of_int (BUILD_FRAMES - 1)),
      0.9, 0.4 + 0.6 * (real_of_int frm / real_of_int (BUILD_FRAMES - 1)))"
  by (simp add: build_params_def Let_def BUILD_FRAMES_def)

lemma draw_frame_shown:
  "k_display (draw_frame s (k, a, f)) = k"
  "glow_outer (draw_frame s (k, a, f)) =
     \<lparr> ldata = (self_x s, heart_curve (self_x s) k a), lalpha = 0.10 * f \<rparr>"
  "glow_inner (draw_frame s (k, a, f)) =
     \<lparr> ldata = (self_x s, heart_curve (self_x s) k a), lalpha = 0.25 * f \<rparr>"
  "core_line (draw_frame s (k, a, f)) =
     \<lparr> ldata = (self_x s, heart_curve (self_x s) k a), lalpha = 0.95 * f \<rparr>"
  by (simp_all add: draw_frame_def Let_def)

lemma update_building:
  "started s \<Longrightarrow> \<not> paused s \<Longrightarrow> frame s < BUILD_FRAMES \<Longrightarrow>
   update s = draw_frame (s\<lparr>completed := False\<rparr>) (build_params (frame s))"
  by (simp add: update_def)

lemma update_pulsing:
  "started s \<Longrightarrow> \<not> paused s \<Longrightarrow> \<not> frame s < BUILD_FRAMES \<Longrightarrow>
   update s = draw_frame
     (if \<not> completed s
      then s\<lparr> completed := True, message_text := MsgCompleted, message_alpha := 0.7 \<rparr>
      else s)
     (pulse_params (frame s))"
  by (simp add: update_def)

lemma building_tick_shown:
  assumes "started s" "\<not> paused s" "frame s < BUILD_FRAMES"
  defines "t \<equiv> real_of_int (frame s) / real_of_int (BUILD_FRAMES - 1)"
  shows "k_display (update s) = real_of_int K_FINAL * ease_in_out t"
    "glow_outer (update s) =
       \<lparr> ldata = (self_x s, heart_curve (self_x s) (real_of_int K_FINAL * ease_in_out t) 0.9),
         lalpha = 0.10 * (0.4 + 0.6 * t) \<rparr>"
    "glow_inner (update s) =
       \<lparr> ldata = (self_x s, heart_curve (self_x s) (real_of_int K_FINAL * ease_in_out t) 0.9),
         lalpha = 0.25 * (0.4 + 0.6 * t) \<rparr>"
    "core_line (update s) =
       \<lparr> ldata = (self_x s, heart_curve (self_x s) (real_of_int K_FINAL * ease_in_out t) 0.9),
         lalpha = 0.95 * (0.4 + 0.6 * t) \<rparr>"
    "\<not> completed (update s)"
  using assms(1-3) unfolding t_def
  by (simp_all add: update_building build_params_eq draw_frame_shown draw_frame_fields)

lemma hundred_ticks:
  assumes "started s" "\<not> paused s" "frame s = 0"
  shows "frame ((update ^^ 100) s) = 100" "k_display ((update ^^ 100) s) = 50"
    "phase_of ((update ^^ 100) s) = Pulsing"
proof -
  let ?s = "(update ^^ 99) s"
  have s: "started ?s" "\<not> paused ?s" using assms by (simp_all add: ticks_keep)
  have f: "frame ?s = 99"
    using ticks_frame_linear [of s 99] assms by (simp add: BUILD_FRAMES_def PULSE_FRAMES_def)
  have e: "(update ^^ 100) s = update ?s"
  proof -
    have "(100::nat) = Suc 99" by simp
    then show ?thesis by (simp only: funpow.simps o_apply)
  qed
  show "frame ((update ^^ 100) s) = 100"
    using s f by (simp add: e update_frame BUILD_FRAMES_def PULSE_FRAMES_def)
  then show "phase_of ((update ^^ 100) s) = Pulsing"
    using assms by (simp add: phase_of_def ticks_keep BUILD_FRAMES_def)
  have "ease_in_out 1 = 1" by (simp add: ease_in_out_def np_clip_def)
  then show "k_display ((update ^^ 100) s) = 50"
    using s f building_tick_shown(1) [of ?s]
    by (simp add: e BUILD_FRAMES_def K_FINAL_def)
qed

lemma building_phase_ticks:
  assumes "started s" "\<not> paused s" "frame s = 0" "n < 100"
  shows "phase_of ((update ^^ n) s) = Building"
  using assms ticks_frame_linear [of s n]
  by (simp add: phase_of_def ticks_keep BUILD_FRAMES_def PULSE_FRAMES_def)

text \<open>
  C2. An unpaused tick in a started state with \<open>frame < BUILD_FRAMES\<close> computes
  \<open>t = frame / (BUILD_FRAMES - 1)\<close>, \<open>k = K_FINAL * ease t\<close> with \<open>K_FINAL = 50\<close>,
  \<open>amplitude = 0.9\<close> and \<open>alpha_factor = 0.4 + 0.6 * t\<close>, and draws the curve, the readout
  and the opacities from them. From \<open>frame = 0\<close>, the first 100 ticks are Building ticks
  and after the 100th the phase is Pulsing and the readout shows \<open>k = 50\<close>.
\<close>

theorem building_tick_frame:
  assumes "started s" and "\<not> paused s" and "frame s < BUILD_FRAMES"
  shows "(let t = real_of_int (frame s) / real_of_int (BUILD_FRAMES - 1);
               k = real_of_int K_FINAL * ease_in_out t;
               amplitude = 0.9;
               alpha_factor = 0.4 + 0.6 * t
          in build_params (frame s) = (k, amplitude, alpha_factor)
             \<and> update s = draw_frame (s\<lparr>completed := False\<rparr>) (k, amplitude, alpha_factor)
             \<and> k_display (update s) = k
             \<and> ldata (core_line (update s)) = (self_x s, heart_curve (self_x s) k amplitude)
             \<and> lalpha (core_line (update s)) = 0.95 * alpha_factor
             \<and> lalpha (glow_inner (update s)) = 0.25 * alpha_factor
             \<and> lalpha (glow_outer (update s)) = 0.10 * alpha_factor)
     \<and> K_FINAL = 50 \<and> BUILD_FRAMES = 100
     \<and> (frame s = 0 \<longrightarrow>
          (\<forall>n < 100. phase_of ((update ^^ n) s) = Building)
          \<and> phase_of ((update ^^ 100) s) = Pulsing
          \<and> frame ((update ^^ 100) s) = 100
          \<and> k_display ((update ^^ 100) s) = 50)"
proof -
  have "build_params (frame s) =
      (real_of_int K_FINAL * ease_in_out (real_of_int (frame s) / real_of_int (BUILD_FRAMES - 1)),
       0.9, 0.4 + 0.6 * (real_of_int (frame s) / real_of_int (BUILD_FRAMES - 1)))"
    by (rule build_params_eq)
  moreover note update_building [OF assms] building_tick_shown [OF assms]
  moreover have "frame s = 0 \<longrightarrow>
          (\<forall>n < 100. phase_of ((update ^^ n) s) = Building)
          \<and> phase_of ((update ^^ 100) s) = Pulsing
          \<and> frame ((update ^^ 100) s) = 100
          \<and> k_display ((update ^^ 100) s) = 50"
    using hundred_ticks [OF assms(1,2)] building_phase_ticks [OF assms(1,2)] by blast
  ultimately show ?thesis
    by (simp add: Let_def K_FINAL_def BUILD_FRAMES_def)
qed

theorem building_tick_frame_witness:
  "started running \<and> \<not> paused running \<and> frame running < BUILD_FRAMES \<and> frame running = 0
   \<and> k_display (update running) = 0
   \<and> lalpha (core_line (update running)) = 0.38
   \<and> phase_of ((update ^^ 99) running) = Building
   \<and> phase_of ((update ^^ 100) running) = Pulsing
   \<and> k_display ((update ^^ 100) running) = 50"
proof -
  have h: "started running" "\<not> paused running" "frame running < BUILD_FRAMES"
    by (simp_all add: running_fields BUILD_FRAMES_def)
  have e: "ease_in_out 0 = 0" by (simp add: ease_in_out_def np_clip_def)
  note T = building_tick_frame [OF h, unfolded Let_def]
  have k0: "k_display (update running) = 0"
    using T e by (simp add: running_fields BUILD_FRAMES_def K_FINAL_def draw_frame_shown)
  have a0: "lalpha (core_line (update running)) = 0.38"
    using T by (simp add: running_fields BUILD_FRAMES_def draw_frame_shown)
  have p: "phase_of ((update ^^ 99) running) = Building"
    "phase_of ((update ^^ 100) running) = Pulsing"
    "k_display ((update ^^ 100) running) = 50"
    using T by (simp_all add: running_fields)
  from h k0 a0 p show ?thesis by (simp add: running_fields)
qed

subsection \<open>The completion latch\<close>

lemma update_completed_pulsing:
  "started s \<Longrightarrow> \<not> frame s < BUILD_FRAMES \<Longrightarrow> completed s \<Longrightarrow> completed (update s)"
  by (cases "paused s") (simp_all add: update_paused update_pulsing draw_frame_fields)

lemma update_message_pulsing:
  "started s \<Longrightarrow> \<not> paused s \<Longrightarrow> \<not> frame s < BUILD_FRAMES \<Longrightarrow>
   message_text (update s) = (if completed s then message_text s else MsgCompleted)"
  by (simp add: update_pulsing draw_frame_fields)

lemma run_completed:
  assumes "started s" "\<not> paused s" "frame s = 0" "\<not> completed s"
  shows "completed ((update ^^ n) s) = (100 < n)
         \<and> (100 < n \<longrightarrow> BUILD_FRAMES \<le> frame ((update ^^ n) s))"
proof (induction n)
  case 0
  with assms show ?case by simp
next
  case (Suc n)
  let ?s = "(update ^^ n) s"
  have s: "started ?s" "\<not> paused ?s" using assms by (simp_all add: ticks_keep)
  have "completed (update ?s) = (100 < Suc n)
         \<and> (100 < Suc n \<longrightarrow> BUILD_FRAMES \<le> frame (update ?s))"
  proof (cases "n < 100")
    case True
    then have "frame ?s = int n"
      using ticks_frame_linear [of s n] assms by (simp add: BUILD_FRAMES_def PULSE_FRAMES_def)
    with True s show ?thesis by (simp add: update_completed BUILD_FRAMES_def)
  next
    case False
    then have "n = 100 \<or> 100 < n" by arith
    then show ?thesis
    proof
      assume n: "n = 100"
      have "frame ?s = 100" using hundred_ticks(1) [OF assms(1-3)] n by simp
      with s n show ?thesis
        by (simp add: update_completed update_frame BUILD_FRAMES_def PULSE_FRAMES_def)
    next
      assume n: "100 < n"
      with Suc.IH have "completed ?s" "BUILD_FRAMES \<le> frame ?s" by simp_all
      with s n show ?thesis
        by (simp add: update_completed update_pulsing_frame)
    qed
  qed
  then show ?case by simp
qed

lemma run_message:
  assumes "started s" "\<not> paused s" "frame s = 0" "\<not> completed s"
  shows "100 < n \<Longrightarrow> message_text ((update ^^ n) s) = MsgCompleted"
proof (induction n)
  case 0
  then show ?case by simp
next
  case (Suc n)
  let ?s = "(update ^^ n) s"
  have s: "started ?s" "\<not> paused ?s" using assms by (simp_all add: ticks_keep)
  have c: "completed ?s = (100 < n)" "100 \<le> n \<longrightarrow> \<not> frame ?s < BUILD_FRAMES"
    using run_completed [OF assms, of n] hundred_ticks(1) [OF assms(1-3)]
    by (auto simp add: BUILD_FRAMES_def le_less)
  from Suc s c have "message_text (update ?s) = MsgCompleted"
    by (cases "100 < n") (simp_all add: update_message_pulsing)
  then show ?case by simp
qed

text \<open>
  C4. In a run of ticks from \<open>frame = 0\<close> with \<open>completed\<close> false, the flag is false up
  to and including the 100th tick and true after every later one, also once the counter
  has wrapped. The tick that latches it and reveals the message is the 101st, the first
  Pulsing tick, and no other.
\<close>

theorem completed_latches_once:
  assumes "started s" and "\<not> paused s" and "frame s = 0" and "\<not> completed s"
  shows "completed ((update ^^ n) s) = (100 < n)
     \<and> reveals_message ((update ^^ n) s) = (n = 100)
     \<and> (100 < n \<longrightarrow> message_text ((update ^^ n) s) = MsgCompleted
                    \<and> phase_of ((update ^^ n) s) = Pulsing)
     \<and> phase_of ((update ^^ 100) s) = Pulsing
     \<and> (n < 100 \<longrightarrow> phase_of ((update ^^ n) s) = Building)"
proof -
  note c = run_completed [OF assms, of n]
  have f: "n \<le> 100 \<Longrightarrow> frame ((update ^^ n) s) = int n"
    using ticks_frame_linear [of s n] assms by (simp add: BUILD_FRAMES_def PULSE_FRAMES_def)
  have r: "reveals_message ((update ^^ n) s) = (n = 100)"
  proof (cases "n \<le> 100")
    case True
    with f c assms show ?thesis
      by (auto simp add: reveals_message_def ticks_keep BUILD_FRAMES_def)
  next
    case False
    with c show ?thesis by (simp add: reveals_message_def)
  qed
  have p: "100 < n \<longrightarrow> phase_of ((update ^^ n) s) = Pulsing"
    using c assms by (auto simp add: phase_of_def ticks_keep)
  from c r p run_message [OF assms, of n] hundred_ticks(3) [OF assms(1-3)]
    building_phase_ticks [OF assms(1-3), of n]
  show ?thesis by simp
qed

theorem completed_latches_once_witness:
  "started running \<and> \<not> paused running \<and> frame running = 0 \<and> \<not> completed running
   \<and> \<not> completed ((update ^^ 100) running)
   \<and> reveals_message ((update ^^ 100) running)
   \<and> completed ((update ^^ 101) running)
   \<and> \<not> reveals_message ((update ^^ 101) running)
   \<and> completed ((update ^^ 500) running)
   \<and> \<not> reveals_message ((update ^^ 500) running)
   \<and> message_text ((update ^^ 500) running) = MsgCompleted"
proof -
  have h: "started running" "\<not> paused running" "frame running = 0" "\<not> completed running"
    by (simp_all add: running_fields)
  from completed_latches_once [OF h, of 100] completed_latches_once [OF h, of 101]
    completed_latches_once [OF h, of 500] h
  show ?thesis by simp
qed

subsection \<open>Restart and pause\<close>

text \<open>
  C5. In every started state the key \<open>r\<close> gives a state with \<open>frame = 0\<close>, \<open>completed\<close>
  and \<open>paused\<close> false, the message and the three curves cleared and the readout back at
  0. The state is still started, its phase is Building, and the next tick is the first
  Building tick.
\<close>

theorem restart_resets:
  assumes "started s"
  shows "\<exists>s'. on_key_press s ''r'' = Inr s'
     \<and> frame s' = 0 \<and> \<not> completed s' \<and> \<not> paused s' \<and> started s'
     \<and> message_text s' = MsgEmpty \<and> message_alpha s' = 0
     \<and> ldata (glow_outer s') = ([], []) \<and> ldata (glow_inner s') = ([], [])
     \<and> ldata (core_line s') = ([], []) \<and> k_display s' = 0
     \<and> phase_of s' = Building
     \<and> update s' = draw_frame (s'\<lparr>completed := False\<rparr>) (build_params 0)
     \<and> frame (update s') = 1"
  using assms
  by (simp add: on_key_press_r phase_of_def update_building draw_frame_frame
      BUILD_FRAMES_def PULSE_FRAMES_def)

theorem restart_resets_witness:
  "started ((update ^^ 130) running) \<and> frame ((update ^^ 130) running) = 130
   \<and> (\<exists>s'. on_key_press ((update ^^ 130) running) ''r'' = Inr s'
         \<and> frame s' = 0 \<and> \<not> completed s' \<and> \<not> paused s' \<and> started s'
         \<and> phase_of s' = Building)"
proof -
  let ?s = "(update ^^ 130) running"
  have st: "started ?s" by (simp add: ticks_keep running_fields)
  have f: "frame ?s = 130"
    using ticks_frame_linear [of running 130]
    by (simp add: running_fields BUILD_FRAMES_def PULSE_FRAMES_def)
  from restart_resets [OF st] st f show ?thesis by blast
qed

lemma resume_fields:
  assumes "started s" "paused s"
  shows "\<exists>s'. on_key_press s '' '' = Inr s' \<and> started s' \<and> \<not> paused s'
     \<and> frame s' = frame s \<and> completed s' = completed s \<and> self_x s' = self_x s"
  using assms by (simp add: on_key_press_space)

lemma update_shown:
  assumes "started s" "\<not> paused s"
  shows "k_display (update s) =
           fst (if frame s < BUILD_FRAMES then build_params (frame s) else pulse_params (frame s))"
proof (cases "frame s < BUILD_FRAMES")
  case True
  with assms show ?thesis
    by (cases "build_params (frame s)") (simp add: update_building draw_frame_shown)
next
  case False
  with assms show ?thesis
    by (cases "pulse_params (frame s)") (simp add: update_pulsing draw_frame_shown)
qed

text \<open>
  C6. In a started and paused state a tick changes nothing, nor does any number of
  ticks. The space key then resumes: the counter is the one held when pausing, and the
  next tick computes its frame from that value and advances from it.
\<close>

theorem paused_tick_noop:
  assumes "started s" and "paused s"
  shows "update s = s \<and> (update ^^ n) s = s
     \<and> (\<exists>s'. on_key_press ((update ^^ n) s) '' '' = Inr s'
           \<and> \<not> paused s' \<and> frame s' = frame s
           \<and> frame (update s') =
               (if frame s + 1 \<ge> BUILD_FRAMES + PULSE_FRAMES then BUILD_FRAMES else frame s + 1)
           \<and> k_display (update s') =
               fst (if frame s < BUILD_FRAMES then build_params (frame s)
                    else pulse_params (frame s)))"
proof -
  have n: "(update ^^ n) s = s" by (rule ticks_paused [OF assms])
  obtain s' where s': "on_key_press s '' '' = Inr s'" "started s'" "\<not> paused s'"
      "frame s' = frame s"
    using resume_fields [OF assms] by blast
  have "frame (update s') =
      (if frame s + 1 \<ge> BUILD_FRAMES + PULSE_FRAMES then BUILD_FRAMES else frame s + 1)"
    using s' by (simp add: update_frame)
  moreover have "k_display (update s') =
      fst (if frame s < BUILD_FRAMES then build_params (frame s) else pulse_params (frame s))"
    using update_shown [OF s'(2,3)] s'(4) by simp
  ultimately show ?thesis using n s' update_paused [OF assms] by simp
qed

theorem paused_tick_noop_witness:
  "on_key_press running '' '' =
     Inr (running\<lparr> paused := True, message_text := MsgPaused, message_alpha := 0.6,
                   draw_requests := 2 \<rparr>)
   \<and> (update ^^ 10) (running\<lparr> paused := True, message_text := MsgPaused,
                               message_alpha := 0.6, draw_requests := 2 \<rparr>)
       = running\<lparr> paused := True, message_text := MsgPaused, message_alpha := 0.6,
                  draw_requests := 2 \<rparr>
   \<and> (\<exists>s'. on_key_press
              ((update ^^ 10) (running\<lparr> paused := True, message_text := MsgPaused,
                                        message_alpha := 0.6, draw_requests := 2 \<rparr>)) '' ''
            = Inr s'
          \<and> \<not> paused s' \<and> frame s' = 0 \<and> frame (update s') = 1)"
proof -
  let ?p = "running\<lparr> paused := True, message_text := MsgPaused, message_alpha := 0.6,
                     draw_requests := 2 \<rparr>"
  have k: "on_key_press running '' '' = Inr ?p"
    by (simp add: on_key_press_space running_fields) (simp add: running_def)
  have h: "started ?p" "paused ?p" by (simp_all add: running_fields)
  have f: "frame ?p = 0" by (simp add: running_fields)
  note T = paused_tick_noop [OF h, of 10]
  have a: "(update ^^ 10) ?p = ?p"
    by (rule T [THEN conjunct2, THEN conjunct1])
  have b: "\<exists>s'. on_key_press ((update ^^ 10) ?p) '' '' = Inr s'
          \<and> \<not> paused s' \<and> frame s' = 0 \<and> frame (update s') = 1"
    using T [THEN conjunct2, THEN conjunct2] f
    by (auto simp add: BUILD_FRAMES_def PULSE_FRAMES_def)
  show ?thesis by (rule conjI [OF k conjI [OF a b]])
qed

subsection \<open>Speed control\<close>

lemma speed_up_key:
  assumes "started s" "0 \<le> fps s"
  shows "on_key_press s ''up'' =
     Inr (case anim_interval s of
            None \<Rightarrow> s\<lparr>fps := min 30 (fps s + 1)\<rparr>
          | Some _ \<Rightarrow> s\<lparr> fps := min 30 (fps s + 1),
                           anim_interval := Some (1000 div min 30 (fps s + 1)) \<rparr>)"
  using assms by (auto simp add: on_key_press_up set_interval_def split: option.splits)

lemma speed_down_key:
  assumes "started s"
  shows "on_key_press s ''down'' =
     Inr (case anim_interval s of
            None \<Rightarrow> s\<lparr>fps := max 1 (fps s - 1)\<rparr>
          | Some _ \<Rightarrow> s\<lparr> fps := max 1 (fps s - 1),
                           anim_interval := Some (1000 div max 1 (fps s - 1)) \<rparr>)"
  using assms by (auto simp add: on_key_press_down set_interval_def split: option.splits)

lemma press_up_n:
  "started s \<Longrightarrow> 0 \<le> fps s \<Longrightarrow> fps s \<le> 30 \<Longrightarrow>
   \<exists>s'. press_n n ''up'' s = Inr s' \<and> started s' \<and> fps s' = min 30 (fps s + int n)"
proof (induction n arbitrary: s)
  case 0
  then show ?case by simp
next
  case (Suc n)
  obtain s1 where s1: "on_key_press s ''up'' = Inr s1" "started s1"
      "fps s1 = min 30 (fps s + 1)"
    using speed_up_key [OF Suc.prems(1,2)] Suc.prems(1) by (simp split: option.splits)
  then have "0 \<le> fps s1" "fps s1 \<le> 30" using Suc.prems by simp_all
  from Suc.IH [OF s1(2) this] s1 Suc.prems show ?case by auto
qed

lemma press_down_n:
  "started s \<Longrightarrow> 1 \<le> fps s \<Longrightarrow>
   \<exists>s'. press_n n ''down'' s = Inr s' \<and> started s' \<and> fps s' = max 1 (fps s - int n)"
proof (induction n arbitrary: s)
  case 0
  then show ?case by simp
next
  case (Suc n)
  obtain s1 where s1: "on_key_press s ''down'' = Inr s1" "started s1"
      "fps s1 = max 1 (fps s - 1)"
    using speed_down_key [OF Suc.prems(1)] Suc.prems(1) by (simp split: option.splits)
  then have "1 \<le> fps s1" by simp
  from Suc.IH [OF s1(2) this] s1 Suc.prems show ?case by auto
qed

lemma update_fps:
  "update (s\<lparr>fps := f, anim_interval := i\<rparr>) = (update s)\<lparr>fps := f, anim_interval := i\<rparr>"
  by (simp add: update_def draw_frame_def Let_def split: prod.splits)

text \<open>
  C7. \<open>fps\<close> is in \<open>[1, 30]\<close> in every reachable state. After the start, the up key sets
  it to \<open>min 30 (fps + 1)\<close> and the down key to \<open>max 1 (fps - 1)\<close>, and both set the timer
  interval to \<open>1000 // fps\<close> milliseconds of the new value. Forty up keys from 3 give 30,
  forty down keys from 3 give 1. What a tick computes does not depend on \<open>fps\<close> or on the
  interval.
\<close>

theorem fps_clamped:
  assumes "reachable s"
  shows "1 \<le> fps s \<and> fps s \<le> 30
     \<and> (started s \<longrightarrow>
          on_key_press s ''up'' =
            Inr (s\<lparr> fps := min 30 (fps s + 1),
                    anim_interval := Some (1000 div min 30 (fps s + 1)) \<rparr>)
          \<and> on_key_press s ''down'' =
            Inr (s\<lparr> fps := max 1 (fps s - 1),
                    anim_interval := Some (1000 div max 1 (fps s - 1)) \<rparr>)
          \<and> (fps s = 3 \<longrightarrow>
               (\<exists>s'. press_n 40 ''up'' s = Inr s' \<and> fps s' = 30)
               \<and> (\<exists>s'. press_n 40 ''down'' s = Inr s' \<and> fps s' = 1)))
     \<and> update (s\<lparr>fps := f, anim_interval := i\<rparr>) = (update s)\<lparr>fps := f, anim_interval := i\<rparr>"
proof -
  have sane: "sane s" by (rule reachable_sane [OF assms])
  then have r: "1 \<le> fps s" "fps s \<le> 30" and a: "anim_interval s \<noteq> None"
    by (simp_all add: sane_def)
  have u: "started s \<longrightarrow> on_key_press s ''up'' =
            Inr (s\<lparr> fps := min 30 (fps s + 1),
                    anim_interval := Some (1000 div min 30 (fps s + 1)) \<rparr>)"
    using speed_up_key [of s] r a by (auto split: option.splits)
  have d: "started s \<longrightarrow> on_key_press s ''down'' =
            Inr (s\<lparr> fps := max 1 (fps s - 1),
                    anim_interval := Some (1000 div max 1 (fps s - 1)) \<rparr>)"
    using speed_down_key [of s] a by (auto split: option.splits)
  have n: "started s \<longrightarrow> fps s = 3 \<longrightarrow>
               (\<exists>s'. press_n 40 ''up'' s = Inr s' \<and> fps s' = 30)
               \<and> (\<exists>s'. press_n 40 ''down'' s = Inr s' \<and> fps s' = 1)"
    using press_up_n [of s 40] press_down_n [of s 40] by auto
  from r u d n update_fps show ?thesis by blast
qed

theorem fps_clamped_witness:
  "reachable running \<and> started running \<and> fps running = 3
   \<and> on_key_press running ''up'' = Inr (running\<lparr>fps := 4, anim_interval := Some 250\<rparr>)
   \<and> on_key_press running ''down'' = Inr (running\<lparr>fps := 2, anim_interval := Some 500\<rparr>)
   \<and> (\<exists>s'. press_n 40 ''up'' running = Inr s' \<and> fps s' = 30)
   \<and> (\<exists>s'. press_n 40 ''down'' running = Inr s' \<and> fps s' = 1)"
  using fps_clamped [OF reachable_running] reachable_running
  by (simp add: running_fields)

subsection \<open>The space and Enter keys\<close>

lemma start_animation_ok:
  assumes "fps s \<noteq> 0"
  shows "\<exists>s'. start_animation s = Inr s' \<and> started s' \<and> frame s' = frame s
          \<and> paused s' = paused s \<and> splash_elements s' = []"
  using assms
  by (simp add: start_animation_def remove_start_screen_def set_interval_def
      split: option.splits)

lemma on_key_press_enter_started: "started s \<Longrightarrow> on_key_press s ''enter'' = Inr s"
  by (simp add: on_key_press_def)

text \<open>
  C8, as stated, fails for the Enter key after the start: in \<open>running\<close>, which is started
  and not paused, Enter leaves the state as it is, so \<open>paused\<close> is not toggled.
\<close>

theorem enter_does_not_pause_counterexample:
  "started running \<and> \<not> paused running
   \<and> on_key_press running ''enter'' = Inr running"
  by (simp add: on_key_press_def running_fields)

text \<open>
  C8, amended. In a reachable state that has not started, the space key and the Enter
  key both run \<open>_start_animation\<close>: the state is started and its phase is Building. In a
  started state the space key toggles \<open>paused\<close>, and the Enter key changes nothing.
\<close>

theorem space_enter_keys:
  assumes "reachable s"
  shows "(\<not> started s \<longrightarrow>
            (\<exists>s'. on_key_press s '' '' = Inr s' \<and> on_key_press s ''enter'' = Inr s'
                   \<and> start_animation s = Inr s'
                   \<and> started s' \<and> phase_of s' = Building))
     \<and> (started s \<longrightarrow>
            (\<exists>s'. on_key_press s '' '' = Inr s' \<and> paused s' = (\<not> paused s)
                   \<and> started s' \<and> frame s' = frame s)
            \<and> on_key_press s ''enter'' = Inr s)"
proof (cases "started s")
  case False
  have sane: "sane s" by (rule reachable_sane [OF assms])
  with False have f: "fps s \<noteq> 0" "frame s = 0" by (simp_all add: sane_def)
  from start_animation_ok [OF f(1)] obtain s' where
    s': "start_animation s = Inr s'" "started s'" "frame s' = frame s" by blast
  with f have "phase_of s' = Building" by (simp add: phase_of_def BUILD_FRAMES_def)
  with s' False show ?thesis by (simp add: on_key_press_splash)
next
  case True
  then show ?thesis
    by (simp add: on_key_press_space on_key_press_enter_started)
qed

theorem space_enter_keys_witness:
  "reachable init \<and> \<not> started init
   \<and> on_key_press init '' '' = Inr running \<and> on_key_press init ''enter'' = Inr running
   \<and> started running \<and> phase_of running = Building
   \<and> reachable running
   \<and> (\<exists>s'. on_key_press running '' '' = Inr s' \<and> paused s')
   \<and> on_key_press running ''enter'' = Inr running"
proof -
  have i: "\<not> started init" by (simp add: init_def)
  have a: "on_key_press init '' '' = Inr running \<and> on_key_press init ''enter'' = Inr running
           \<and> phase_of running = Building"
    using space_enter_keys [OF reach_init] i start_from_init by auto
  have b: "(\<exists>s'. on_key_press running '' '' = Inr s' \<and> paused s')
           \<and> on_key_press running ''enter'' = Inr running"
    using space_enter_keys [OF reachable_running] by (auto simp add: running_fields)
  from a b i reach_init reachable_running show ?thesis by (simp add: running_fields)
qed

subsection \<open>Events without coordinates\<close>

lemma is_over_button_None:
  "ev_x e = None \<or> ev_y e = None \<Longrightarrow> \<not> is_over_button tr e"
  by (auto simp add: is_over_button_def split: option.splits)

lemma reachable_hovered: "reachable hovered"
  unfolding hovered_def by (rule reach_motion [OF reach_init])

lemma hovered_eq:
  "hovered = init\<lparr> hovering_btn := True, btn_facecolor := BtnHover, btn_alpha := 1.0,
                   btn_linewidth := 2.5, draw_requests := 1 \<rparr>"
  by (simp add: hovered_def on_motion_def is_over_button_def fig_transform_def Let_def)
     (simp add: init_def)

text \<open>
  C10, as stated, fails for a motion event while the button is highlighted: in \<open>hovered\<close>
  a motion event without coordinates turns the highlight off.
\<close>

theorem missing_coordinate_motion_counterexample:
  "reachable hovered \<and> \<not> started hovered \<and> hovering_btn hovered
   \<and> btn_facecolor hovered = BtnHover
   \<and> \<not> hovering_btn (on_motion fig_transform hovered \<lparr> ev_x = None, ev_y = None \<rparr>)
   \<and> btn_facecolor (on_motion fig_transform hovered \<lparr> ev_x = None, ev_y = None \<rparr>) = BtnFace"
proof -
  have h: "\<not> started hovered" "hovering_btn hovered" "btn_facecolor hovered = BtnHover"
    by (simp_all add: hovered_eq) (simp add: init_def)
  have n: "\<not> is_over_button fig_transform \<lparr> ev_x = None, ev_y = None \<rparr>"
    by (simp add: is_over_button_def)
  from h n reachable_hovered show ?thesis by (simp add: on_motion_def)
qed

text \<open>
  C10, amended. For an event whose x or y coordinate is \<open>None\<close>, the hit test is false
  and calls no transform. Such a click changes nothing, so it never starts the animation.
  Such a motion event never turns the highlight on: before the start it turns a lit
  highlight off, and otherwise it changes nothing.
\<close>

theorem missing_coordinate_events:
  assumes "ev_x e = None \<or> ev_y e = None"
  shows "\<not> is_over_button tr e
     \<and> on_click tr s e = Inr s
     \<and> on_motion tr s e =
         (if \<not> started s \<and> hovering_btn s
          then s\<lparr> hovering_btn := False, btn_facecolor := BtnFace, btn_alpha := 0.95,
                  btn_linewidth := 2.0, draw_requests := draw_requests s + 1 \<rparr>
          else s)
     \<and> (hovering_btn (on_motion tr s e) \<longrightarrow> hovering_btn s)
     \<and> (\<not> started s \<longrightarrow> \<not> hovering_btn (on_motion tr s e))
     \<and> started (on_motion tr s e) = started s"
proof -
  have n: "\<not> is_over_button tr e" by (rule is_over_button_None [OF assms])
  then show ?thesis
    by (cases "started s") (simp_all add: on_click_def on_motion_def)
qed

theorem missing_coordinate_events_witness:
  "ev_x \<lparr> ev_x = None, ev_y = Some 414 \<rparr> = None
   \<and> \<not> is_over_button fig_transform \<lparr> ev_x = None, ev_y = Some 414 \<rparr>
   \<and> on_click fig_transform init \<lparr> ev_x = None, ev_y = Some 414 \<rparr> = Inr init
   \<and> on_motion fig_transform init \<lparr> ev_x = None, ev_y = Some 414 \<rparr> = init
   \<and> is_over_button fig_transform \<lparr> ev_x = Some 500, ev_y = Some 414 \<rparr>"
proof -
  have h: "ev_x \<lparr> ev_x = None, ev_y = Some 414 \<rparr> = None
             \<or> ev_y \<lparr> ev_x = None, ev_y = Some 414 \<rparr> = None" by simp
  have i: "\<not> started init" "\<not> hovering_btn init" by (simp_all add: init_def)
  have o: "is_over_button fig_transform \<lparr> ev_x = Some 500, ev_y = Some 414 \<rparr>"
    by (simp add: is_over_button_def fig_transform_def)
  from missing_coordinate_events [OF h, of fig_transform init] i o show ?thesis by simp
qed

end
